theory Spec2Isabelle
  imports Complex_Main
begin

section \<open>JavaScript numbers\<close>

text \<open>
  The tilt computation of \<^verbatim>\<open>BenefitCard.tsx\<close> is arithmetic on JavaScript numbers,
  that is on IEEE 754 binary64. A number is a finite value or one of the three special
  values; a finite value is a real number, and the numbers the program handles are the
  representable ones (\<open>is_double\<close>). Each arithmetic operation computes the exact result
  and rounds it to the nearest representable number, ties to the even significand;
  a result whose rounding reaches \<open>2 ^ 1024\<close> overflows to an infinity, and below
  \<open>2 ^ - 1022\<close> the spacing stays \<open>2 ^ - 1074\<close> (gradual underflow). The special values
  follow IEEE 754 as ECMAScript prescribes it: a non-zero number divided by zero is an
  infinity of its sign, zero divided by zero is NaN, and NaN is absorbing. The sign of zero
  is not modelled: a zero divisor is the positive zero that \<^verbatim>\<open>rect.width / 2\<close> gives for
  an empty rectangle.
\<close>

datatype jsnum = Num real | PosInf | NegInf | NaN

text \<open>The position of the leading bit of a positive integer, and with it
  \<open>\<lfloor>log\<^sub>2 r\<rfloor>\<close> of a positive real.\<close>

fun ilog2 :: "nat \<Rightarrow> nat" where
  "ilog2 n = (if n < 2 then 0 else Suc (ilog2 (n div 2)))"

definition floor_log2 :: "real \<Rightarrow> int" where
  "floor_log2 r =
     (if 1 \<le> r then int (ilog2 (nat \<lfloor>r\<rfloor>))
      else - int (Suc (ilog2 (nat \<lceil>1 / r\<rceil> - 1))))"

definition round_half_even :: "real \<Rightarrow> int" where
  \<comment> \<open>the nearest integer, the even one of the two when both are equally near\<close>
  "round_half_even x =
     (let f = \<lfloor>x\<rfloor>; d = x - of_int f
      in if d < 1 / 2 then f else if 1 / 2 < d then f + 1 else if even f then f else f + 1)"

definition quantum :: "real \<Rightarrow> int" where
  \<comment> \<open>the exponent of the spacing of the doubles around \<open>r\<close>: 53 significant bits, and
     never below the spacing of the subnormal numbers\<close>
  "quantum r = max (- 1074) (floor_log2 \<bar>r\<bar> - 52)"

definition round_to_quantum :: "real \<Rightarrow> real" where
  "round_to_quantum r = of_int (round_half_even (r / 2 powi quantum r)) * 2 powi quantum r"

definition round64 :: "real \<Rightarrow> jsnum" where
  \<comment> \<open>round to nearest, ties to even, with overflow to an infinity\<close>
  "round64 r =
     (if r = 0 then Num 0
      else let v = round_to_quantum r
           in if 2 ^ 1024 \<le> \<bar>v\<bar> then (if 0 < v then PosInf else NegInf) else Num v)"

definition is_double :: "real \<Rightarrow> bool" where
  \<comment> \<open>the representable numbers are those that rounding leaves unchanged\<close>
  "is_double r = (round64 r = Num r)"

fun js_sub :: "jsnum \<Rightarrow> jsnum \<Rightarrow> jsnum" where
  "js_sub NaN _ = NaN"
| "js_sub _ NaN = NaN"
| "js_sub (Num a) (Num b) = round64 (a - b)"
| "js_sub (Num a) PosInf = NegInf"
| "js_sub (Num a) NegInf = PosInf"
| "js_sub PosInf PosInf = NaN"
| "js_sub PosInf _ = PosInf"
| "js_sub NegInf NegInf = NaN"
| "js_sub NegInf _ = NegInf"

definition inf_of_sign :: "real \<Rightarrow> jsnum" where
  \<comment> \<open>the infinity with the sign of a non-zero number, NaN for zero\<close>
  "inf_of_sign a = (if a = 0 then NaN else if 0 < a then PosInf else NegInf)"

fun js_mul :: "jsnum \<Rightarrow> jsnum \<Rightarrow> jsnum" where
  "js_mul NaN _ = NaN"
| "js_mul _ NaN = NaN"
| "js_mul (Num a) (Num b) = round64 (a * b)"
| "js_mul (Num a) PosInf = inf_of_sign a"
| "js_mul (Num a) NegInf = inf_of_sign (- a)"
| "js_mul PosInf (Num b) = inf_of_sign b"
| "js_mul NegInf (Num b) = inf_of_sign (- b)"
| "js_mul PosInf PosInf = PosInf"
| "js_mul PosInf NegInf = NegInf"
| "js_mul NegInf PosInf = NegInf"
| "js_mul NegInf NegInf = PosInf"

fun js_div :: "jsnum \<Rightarrow> jsnum \<Rightarrow> jsnum" where
  "js_div NaN _ = NaN"
| "js_div _ NaN = NaN"
| "js_div (Num a) (Num b) = (if b = 0 then inf_of_sign a else round64 (a / b))"
| "js_div (Num a) _ = Num 0"
| "js_div PosInf (Num b) = (if 0 \<le> b then PosInf else NegInf)"
| "js_div NegInf (Num b) = (if 0 \<le> b then NegInf else PosInf)"
| "js_div _ _ = NaN"

definition truthy :: "jsnum \<Rightarrow> bool" where
  \<comment> \<open>ToBoolean on a number: false for zero and NaN\<close>
  "truthy v = (case v of Num a \<Rightarrow> a \<noteq> 0 | NaN \<Rightarrow> False | _ \<Rightarrow> True)"

definition js_or :: "jsnum \<Rightarrow> jsnum \<Rightarrow> jsnum" where
  \<comment> \<open>\<^verbatim>\<open>a || b\<close>: the left operand when it is truthy, else the right one\<close>
  "js_or a b = (if truthy a then a else b)"

definition is_finite :: "jsnum \<Rightarrow> bool" where
  "is_finite v = (case v of Num _ \<Rightarrow> True | _ \<Rightarrow> False)"

definition magnitude_le :: "real \<Rightarrow> jsnum \<Rightarrow> bool" where
  \<comment> \<open>a finite number of magnitude at most \<open>m\<close>\<close>
  "magnitude_le m v = (case v of Num a \<Rightarrow> abs a \<le> m | _ \<Rightarrow> False)"

definition at_least :: "real \<Rightarrow> jsnum \<Rightarrow> bool" where
  \<comment> \<open>\<open>m\<close> or more, \<open>+Infinity\<close> included\<close>
  "at_least m v = (case v of Num a \<Rightarrow> m \<le> a | PosInf \<Rightarrow> True | _ \<Rightarrow> False)"

definition at_most :: "real \<Rightarrow> jsnum \<Rightarrow> bool" where
  \<comment> \<open>\<open>m\<close> or less, \<open>-Infinity\<close> included\<close>
  "at_most m v = (case v of Num a \<Rightarrow> a \<le> m | NegInf \<Rightarrow> True | _ \<Rightarrow> False)"

definition in_range :: "real \<Rightarrow> real \<Rightarrow> jsnum \<Rightarrow> bool" where
  \<comment> \<open>a finite number between \<open>lo\<close> and \<open>hi\<close>\<close>
  "in_range lo hi v = (case v of Num a \<Rightarrow> lo \<le> a \<and> a \<le> hi | _ \<Rightarrow> False)"

section \<open>The pointer-tilt card (\<^verbatim>\<open>BenefitCard.tsx\<close>)\<close>

record tilt =
  tilt_x :: jsnum
  tilt_y :: jsnum

text \<open>The part of a mouse event the handler reads: the pointer position and the
  bounding rectangle of the card (\<^verbatim>\<open>e.currentTarget.getBoundingClientRect()\<close>).\<close>

record DOMRect =
  rect_left :: jsnum
  rect_top :: jsnum
  rect_width :: jsnum
  rect_height :: jsnum

record MouseEvent =
  clientX :: jsnum
  clientY :: jsnum
  rect :: DOMRect

definition initial_tilt :: tilt where
  \<comment> \<open>\<^verbatim>\<open>useState({ x: 0, y: 0 })\<close>\<close>
  "initial_tilt = \<lparr>tilt_x = Num 0, tilt_y = Num 0\<rparr>"

text \<open>The property \<^verbatim>\<open>onClick\<close> is optional: \<open>None\<close> is the absent handler. The
  handler returns the tilt state after the event.\<close>

definition handleMouseMove :: "'h option \<Rightarrow> MouseEvent \<Rightarrow> tilt \<Rightarrow> tilt" where
  "handleMouseMove onClick e t =
     (case onClick of
        None \<Rightarrow> t
      | Some _ \<Rightarrow>
          (let x = js_sub (clientX e) (rect_left (rect e));
               y = js_sub (clientY e) (rect_top (rect e));
               centerX = js_div (rect_width (rect e)) (Num 2);
               centerY = js_div (rect_height (rect e)) (Num 2);
               tiltX = js_mul (js_div (js_sub y centerY) centerY) (Num (- 8));
               tiltY = js_mul (js_div (js_sub x centerX) centerX) (Num 8)
           in \<lparr>tilt_x = tiltX, tilt_y = tiltY\<rparr>))"

definition handleMouseLeave :: "tilt \<Rightarrow> tilt" where
  "handleMouseLeave t = \<lparr>tilt_x = Num 0, tilt_y = Num 0\<rparr>"

text \<open>The inline style of the card. The \<^verbatim>\<open>transform\<close> template string is kept as the
  four numbers it is built from, the \<^verbatim>\<open>boxShadow\<close> string as its two layers; an absent
  style property (\<^verbatim>\<open>undefined\<close>) is \<open>None\<close>. The literal \<^verbatim>\<open>1.02\<close> stands for the double
  nearest to it; the program does no arithmetic on it.\<close>

record transform =
  perspective_px :: jsnum
  rotateX_deg :: jsnum
  rotateY_deg :: jsnum
  scale :: jsnum

record style =
  animationDelay_ms :: jsnum
  transform :: "transform option"
  boxShadow :: "string list option"

definition card_scale :: "tilt \<Rightarrow> jsnum" where
  \<comment> \<open>\<^verbatim>\<open>tilt.x || tilt.y ? 1.02 : 1\<close>\<close>
  "card_scale t = (if truthy (js_or (tilt_x t) (tilt_y t)) then Num 1.02 else Num 1)"

definition card_style :: "'h option \<Rightarrow> jsnum \<Rightarrow> tilt \<Rightarrow> style" where
  "card_style onClick delay t =
     \<lparr>animationDelay_ms = delay,
      transform =
        (case onClick of
           Some _ \<Rightarrow> Some \<lparr>perspective_px = Num 1000, rotateX_deg = tilt_x t,
                            rotateY_deg = tilt_y t, scale = card_scale t\<rparr>
         | None \<Rightarrow> None),
      boxShadow =
        (case onClick of
           Some _ \<Rightarrow> Some [''0 10px 40px rgba(139, 92, 246, 0.2)'',
                            ''inset 0 1px 0 rgba(255, 255, 255, 0.1)'']
         | None \<Rightarrow> None)\<rparr>"

text \<open>The pointer sample of the specification is the position relative to the corner of
  the rectangle, as the handler computes it (\<^verbatim>\<open>x\<close> and \<^verbatim>\<open>y\<close> in the source).\<close>

definition sampleX :: "MouseEvent \<Rightarrow> jsnum" where
  "sampleX e = js_sub (clientX e) (rect_left (rect e))"

definition sampleY :: "MouseEvent \<Rightarrow> jsnum" where
  "sampleY e = js_sub (clientY e) (rect_top (rect e))"

text \<open>A pointer event at position \<open>(cx, cy)\<close> over a card whose rectangle has its corner at
  \<open>(l, tp)\<close> and the size \<open>w\<close> by \<open>h\<close>.\<close>

definition pointer_event :: "real \<Rightarrow> real \<Rightarrow> real \<Rightarrow> real \<Rightarrow> real \<Rightarrow> real \<Rightarrow> MouseEvent" where
  "pointer_event cx cy l tp w h =
     \<lparr>clientX = Num cx, clientY = Num cy,
      rect = \<lparr>rect_left = Num l, rect_top = Num tp, rect_width = Num w, rect_height = Num h\<rparr>\<rparr>"


section \<open>The profile page (\<^verbatim>\<open>profile.tsx\<close>)\<close>

record WiralisUser =
  user_id :: string
  telegramId :: jsnum
  nickname :: string
  username :: "string option"
  quote :: "string option"
  botId :: "string option"
  registeredAt :: string

text \<open>The three fields the page reads from the result of \<^verbatim>\<open>useQuery\<close>. The query
  library is not part of the repository: the fields are inputs of the page.\<close>

record 'e query_result =
  data :: "WiralisUser option"
  isLoading :: bool
  error :: "'e option"

text \<open>The component state (\<^verbatim>\<open>useState<WiralisUser | null>(null)\<close>), and the console,
  which the mount effect writes to.\<close>

record profile_state =
  localUser :: "WiralisUser option"
  console :: "string list"

definition initial_profile :: profile_state where
  "initial_profile = \<lparr>localUser = None, console = []\<rparr>"

datatype js_exception = SyntaxError string

text \<open>The effect run once when the page is mounted. \<^verbatim>\<open>localStorage\<close> is a map from keys
  to strings; \<^verbatim>\<open>JSON.parse\<close> is a parameter, returning either the exception it throws or
  the value it parsed (\<open>None\<close> for \<^verbatim>\<open>null\<close>). The \<^verbatim>\<open>catch\<close> block is the \<open>Inl\<close> branch.\<close>

definition Profile_useEffect ::
  "(string \<Rightarrow> js_exception + WiralisUser option) \<Rightarrow> (string \<rightharpoonup> string) \<Rightarrow>
     profile_state \<Rightarrow> profile_state" where
  "Profile_useEffect JSON_parse localStorage st =
     (case localStorage ''wiralis_user'' of
        None \<Rightarrow> st
      | Some saved \<Rightarrow>
          if saved = [] then st
          else (case JSON_parse saved of
                  Inr v \<Rightarrow> st\<lparr>localUser := v\<rparr>
                | Inl e \<Rightarrow> st\<lparr>console := console st @ [''Failed to parse saved user'']\<rparr>))"

definition displayUser :: "'e query_result \<Rightarrow> profile_state \<Rightarrow> WiralisUser option" where
  \<comment> \<open>\<^verbatim>\<open>user || localUser\<close>\<close>
  "displayUser q st = (case data q of Some u \<Rightarrow> Some u | None \<Rightarrow> localUser st)"

text \<open>What the page renders. An optional text is shown when the field is truthy: neither
  absent nor the empty string.\<close>

definition shown :: "string option \<Rightarrow> string option" where
  "shown f = (case f of None \<Rightarrow> None | Some s \<Rightarrow> if s = [] then None else Some s)"

record profile_card =
  text_nickname :: string
  text_username :: "string option"
  text_quote :: "string option"
  text_bot_id :: "string option"
  text_telegram_id :: jsnum

datatype page =
    UserNotFound
  | LoadingSkeleton
  | LoadError
  | ProfileCard profile_card
  | NoCard

definition profile_card_of :: "WiralisUser \<Rightarrow> profile_card" where
  "profile_card_of u =
     \<lparr>text_nickname = nickname u, text_username = shown (username u),
      text_quote = shown (quote u), text_bot_id = shown (botId u),
      text_telegram_id = telegramId u\<rparr>"

definition Profile :: "string option \<Rightarrow> 'e query_result \<Rightarrow> profile_state \<Rightarrow> page" where
  "Profile userId q st =
     (if shown userId = None then UserNotFound
      else if isLoading q then LoadingSkeleton
      else if error q \<noteq> None then LoadError
      else (case displayUser q st of
              Some u \<Rightarrow> ProfileCard (profile_card_of u)
            | None \<Rightarrow> NoCard))"

section \<open>Rounding to binary64\<close>

text \<open>The facts about rounding that the properties of the handler rest on: rounding is
  monotone, it is odd, it is idempotent, and it leaves unchanged every number
  \<open>m * 2 ^ e\<close> with \<open>\<bar>m\<bar> < 2 ^ 53\<close> and \<open>- 1074 \<le> e \<le> 971\<close>.\<close>

declare ilog2.simps [simp del]

lemma ilog2_bounds: "0 < n \<Longrightarrow> 2 ^ ilog2 n \<le> n \<and> n < 2 ^ Suc (ilog2 n)"
proof (induction n rule: ilog2.induct)
  case (1 n)
  show ?case
  proof (cases "n < 2")
    case True
    with 1(2) show ?thesis by (simp add: ilog2.simps [of n])
  next
    case False
    then have "0 < n div 2" by simp
    with 1(1) False have IH: "2 ^ ilog2 (n div 2) \<le> n div 2 \<and> n div 2 < 2 ^ Suc (ilog2 (n div 2))"
      by simp
    have e: "ilog2 n = Suc (ilog2 (n div 2))" using False by (simp add: ilog2.simps [of n])
    from IH have "2 * 2 ^ ilog2 (n div 2) \<le> n" by linarith
    moreover from IH have "n < 2 * 2 ^ Suc (ilog2 (n div 2))" by linarith
    ultimately show ?thesis unfolding e by simp
  qed
qed

lemma floor_log2_bounds:
  assumes "0 < r"
  shows "2 powi floor_log2 r \<le> r \<and> r < 2 powi (floor_log2 r + 1)"
proof (cases "1 \<le> r")
  case True
  define n where "n = nat \<lfloor>r\<rfloor>"
  have n: "0 < n" "real n \<le> r" "r < real n + 1" using True unfolding n_def by linarith+
  from ilog2_bounds [OF n(1)] have b: "2 ^ ilog2 n \<le> n" "Suc n \<le> 2 ^ Suc (ilog2 n)" by auto
  have "real (2 ^ ilog2 n) \<le> real n" using b(1) by (rule of_nat_mono)
  then have b1: "(2::real) ^ ilog2 n \<le> real n" by simp
  have "real (Suc n) \<le> real (2 ^ Suc (ilog2 n))" using b(2) by (rule of_nat_mono)
  then have b2: "real (Suc n) \<le> (2::real) ^ Suc (ilog2 n)" by simp
  have fl: "floor_log2 r = int (ilog2 n)" using True by (simp add: floor_log2_def n_def)
  have p: "(2::real) powi (int (ilog2 n) + 1) = 2 ^ Suc (ilog2 n)"
    by (simp add: power_int_add)
  have "(2::real) ^ ilog2 n \<le> r" using b1 n by linarith
  moreover have "r < 2 ^ Suc (ilog2 n)" using b2 n by simp
  ultimately show ?thesis unfolding fl p by simp
next
  case False
  define s where "s = 1 / r"
  define n where "n = nat \<lceil>s\<rceil>"
  have s: "1 < s" using False assms by (simp add: s_def)
  have n: "2 \<le> n" "s \<le> real n" "real n - 1 < s" using s unfolding n_def by linarith+
  define k where "k = ilog2 (n - 1)"
  have "0 < n - 1" using n by simp
  from ilog2_bounds [OF this] have b: "2 ^ k \<le> n - 1" "n \<le> 2 ^ Suc k" by (auto simp: k_def)
  have "real (2 ^ k) \<le> real (n - 1)" using b(1) by (rule of_nat_mono)
  then have b1: "(2::real) ^ k \<le> real n - 1" using n(1) by (simp add: of_nat_diff)
  have "real n \<le> real (2 ^ Suc k)" using b(2) by (rule of_nat_mono)
  then have b2: "real n \<le> (2::real) ^ Suc k" by simp
  have fl: "floor_log2 r = - int (Suc k)" using False by (simp add: floor_log2_def n_def s_def k_def)
  have lo: "2 ^ k < s" using b1 n by linarith
  have hi: "s \<le> 2 ^ Suc k" using b2 n by linarith
  have r: "r = 1 / s" using assms by (simp add: s_def)
  have "1 / 2 ^ Suc k \<le> r" unfolding r using hi s by (simp add: field_simps)
  moreover have "r < 1 / 2 ^ k" unfolding r using lo s by (simp add: field_simps)
  moreover have "(2::real) powi (- int (Suc k)) = 1 / 2 ^ Suc k"
    by (simp only: power_int_minus_divide power_int_of_nat)
  moreover have "(2::real) powi (- int (Suc k) + 1) = 1 / 2 ^ k"
  proof -
    have "- int (Suc k) + 1 = - int k" by simp
    then show ?thesis by (simp only: power_int_minus_divide power_int_of_nat)
  qed
  ultimately show ?thesis unfolding fl by simp
qed

lemma pow2_less_imp: "(2::real) powi k < 2 powi m \<Longrightarrow> k < m"
  using power_int_increasing [of m k "2::real"] by (cases "k < m") auto

lemma floor_log2_unique:
  assumes "2 powi k \<le> r" "r < 2 powi (k + 1)"
  shows "floor_log2 r = k"
proof -
  have "(0::real) < 2 powi k" by simp
  then have "0 < r" using assms(1) by linarith
  from floor_log2_bounds [OF this] have b: "2 powi floor_log2 r \<le> r" "r < 2 powi (floor_log2 r + 1)" by auto
  have "(2::real) powi k < 2 powi (floor_log2 r + 1)" using assms(1) b(2) by linarith
  then have "k < floor_log2 r + 1" by (rule pow2_less_imp)
  moreover have "(2::real) powi floor_log2 r < 2 powi (k + 1)" using assms(2) b(1) by linarith
  then have "floor_log2 r < k + 1" by (rule pow2_less_imp)
  ultimately show ?thesis by simp
qed

lemma floor_log2_mono:
  assumes "0 < a" "a \<le> b"
  shows "floor_log2 a \<le> floor_log2 b"
proof -
  have "(2::real) powi floor_log2 a < 2 powi (floor_log2 b + 1)"
    using floor_log2_bounds [of a] floor_log2_bounds [of b] assms by linarith
  then have "floor_log2 a < floor_log2 b + 1" by (rule pow2_less_imp)
  then show ?thesis by simp
qed

lemma rhe_of_int: "round_half_even (of_int n) = n"
  by (simp add: round_half_even_def)

lemma rhe_bounds: "\<lfloor>x\<rfloor> \<le> round_half_even x \<and> round_half_even x \<le> \<lfloor>x\<rfloor> + 1"
  by (simp add: round_half_even_def Let_def)

lemma rhe_mono:
  assumes "x \<le> y"
  shows "round_half_even x \<le> round_half_even y"
proof (cases "\<lfloor>x\<rfloor> = \<lfloor>y\<rfloor>")
  case True
  then show ?thesis using assms by (simp add: round_half_even_def Let_def)
next
  case False
  moreover have "\<lfloor>x\<rfloor> \<le> \<lfloor>y\<rfloor>" using assms by (rule floor_mono)
  ultimately have "\<lfloor>x\<rfloor> + 1 \<le> \<lfloor>y\<rfloor>" by simp
  then show ?thesis using rhe_bounds [of x] rhe_bounds [of y] by linarith
qed

lemma rhe_minus: "round_half_even (- x) = - round_half_even x"
proof (cases "x = of_int \<lfloor>x\<rfloor>")
  case True
  then obtain n where "x = of_int n" ..
  then have "- x = of_int (- n)" by simp
  then show ?thesis unfolding \<open>x = of_int n\<close> by (simp only: rhe_of_int)
next
  case False
  then have f: "\<lfloor>- x\<rfloor> = - \<lfloor>x\<rfloor> - 1"
    by (simp add: floor_minus ceiling_altdef)
  have d: "- x - of_int \<lfloor>- x\<rfloor> = 1 - (x - of_int \<lfloor>x\<rfloor>)" unfolding f by simp
  show ?thesis
    unfolding round_half_even_def [of "- x"] round_half_even_def [of x] Let_def d
    unfolding f by auto
qed

lemma quantum_minus: "quantum (- r) = quantum r"
  by (simp add: quantum_def)

lemma rtq_minus: "round_to_quantum (- r) = - round_to_quantum r"
  by (simp add: round_to_quantum_def quantum_minus rhe_minus)

lemma rtq_0: "round_to_quantum 0 = 0"
  using rhe_of_int [of 0] by (simp add: round_to_quantum_def)

lemma rtq_nonneg:
  assumes "0 \<le> r"
  shows "0 \<le> round_to_quantum r"
proof -
  have "0 \<le> r / 2 powi quantum r" using assms by simp
  then have "round_half_even 0 \<le> round_half_even (r / 2 powi quantum r)" by (rule rhe_mono)
  then have "0 \<le> round_half_even (r / 2 powi quantum r)" using rhe_of_int [of 0] by simp
  then show ?thesis by (simp add: round_to_quantum_def)
qed

lemma quantum_mono:
  assumes "0 < a" "a \<le> b"
  shows "quantum a \<le> quantum b"
  using floor_log2_mono [of "\<bar>a\<bar>" "\<bar>b\<bar>"] assms by (simp add: quantum_def)

lemma below_binade:
  assumes "0 < a"
  shows "a < 2 powi (quantum a + 53)"
proof -
  have "floor_log2 a + 1 \<le> quantum a + 53" using assms by (simp add: quantum_def)
  then have "(2::real) powi (floor_log2 a + 1) \<le> 2 powi (quantum a + 53)"
    by (intro power_int_increasing) simp_all
  then show ?thesis using floor_log2_bounds [OF assms] by linarith
qed

lemma above_binade:
  assumes "0 < b" "- 1074 < quantum b"
  shows "2 powi (quantum b + 52) \<le> b"
proof -
  have "quantum b = floor_log2 b - 52" using assms by (simp add: quantum_def max_def split: if_splits)
  then show ?thesis using floor_log2_bounds [OF assms(1)] by simp
qed

lemma rtq_le_binade:
  assumes "0 < a"
  shows "round_to_quantum a \<le> 2 powi (quantum a + 53)"
proof -
  have p: "(0::real) < 2 powi quantum a" by simp
  have "a / 2 powi quantum a < 2 powi (quantum a + 53) / 2 powi quantum a"
    using below_binade [OF assms] p by (simp add: divide_strict_right_mono)
  also have "\<dots> = of_int (2 ^ 53)" by (simp add: power_int_add)
  finally have "round_half_even (a / 2 powi quantum a) \<le> round_half_even (of_int (2 ^ 53))"
    by (intro rhe_mono) simp
  then have "round_half_even (a / 2 powi quantum a) \<le> 2 ^ 53" by (simp only: rhe_of_int)
  then have "(of_int (round_half_even (a / 2 powi quantum a)) :: real) \<le> of_int (2 ^ 53)"
    by (simp only: of_int_le_iff)
  then have "round_to_quantum a \<le> of_int (2 ^ 53) * 2 powi quantum a"
    unfolding round_to_quantum_def using p by (simp only: mult_le_cancel_right_pos)
  also have "\<dots> = 2 powi (quantum a + 53)" by (simp add: power_int_add)
  finally show ?thesis .
qed

lemma rtq_ge_binade:
  assumes "0 < b" "- 1074 < quantum b"
  shows "2 powi (quantum b + 52) \<le> round_to_quantum b"
proof -
  have p: "(0::real) < 2 powi quantum b" by simp
  have "2 powi (quantum b + 52) / 2 powi quantum b \<le> b / 2 powi quantum b"
    using above_binade [OF assms] p by (simp add: divide_right_mono)
  moreover have "2 powi (quantum b + 52) / 2 powi quantum b = (of_int (2 ^ 52) :: real)"
    by (simp add: power_int_add)
  ultimately have "round_half_even (of_int (2 ^ 52)) \<le> round_half_even (b / 2 powi quantum b)"
    by (intro rhe_mono) simp
  then have "2 ^ 52 \<le> round_half_even (b / 2 powi quantum b)" by (simp only: rhe_of_int)
  then have "(of_int (2 ^ 52) :: real) \<le> of_int (round_half_even (b / 2 powi quantum b))"
    by (simp only: of_int_le_iff)
  then have "of_int (2 ^ 52) * 2 powi quantum b \<le> round_to_quantum b"
    unfolding round_to_quantum_def using p by (simp only: mult_le_cancel_right_pos)
  moreover have "of_int (2 ^ 52) * 2 powi quantum b = (2::real) powi (quantum b + 52)"
    by (simp add: power_int_add)
  ultimately show ?thesis by simp
qed

lemma rtq_mono_pos:
  assumes "0 < a" "a \<le> b"
  shows "round_to_quantum a \<le> round_to_quantum b"
proof (cases "quantum a = quantum b")
  case True
  have p: "(0::real) < 2 powi quantum b" by simp
  have "a / 2 powi quantum b \<le> b / 2 powi quantum b" using assms p by (simp add: divide_right_mono)
  then have "round_half_even (a / 2 powi quantum b) \<le> round_half_even (b / 2 powi quantum b)"
    by (rule rhe_mono)
  then show ?thesis unfolding round_to_quantum_def True using p by simp
next
  case False
  then have lt: "quantum a < quantum b" using quantum_mono [OF assms] by simp
  have "- 1074 \<le> quantum a" by (simp add: quantum_def)
  then have n: "- 1074 < quantum b" using lt by simp
  have b: "0 < b" using assms by simp
  have "(2::real) powi (quantum a + 53) \<le> 2 powi (quantum b + 52)"
    using lt by (intro power_int_increasing) simp_all
  then show ?thesis using rtq_le_binade [OF assms(1)] rtq_ge_binade [OF b n] by linarith
qed

lemma rtq_mono:
  assumes "a \<le> b"
  shows "round_to_quantum a \<le> round_to_quantum b"
proof -
  consider "0 < a" | "a \<le> 0" "0 \<le> b" | "b < 0" by linarith
  then show ?thesis
  proof cases
    case 1
    then show ?thesis using assms by (rule rtq_mono_pos)
  next
    case 2
    have "0 \<le> round_to_quantum (- a)" using 2(1) by (intro rtq_nonneg) simp
    then have "round_to_quantum a \<le> 0" by (simp add: rtq_minus)
    then show ?thesis using rtq_nonneg [OF 2(2)] by linarith
  next
    case 3
    then have "round_to_quantum (- b) \<le> round_to_quantum (- a)"
      using assms by (intro rtq_mono_pos) simp_all
    then show ?thesis by (simp add: rtq_minus)
  qed
qed

lemma rtq_fix:
  assumes "\<bar>m\<bar> < 2 ^ 53" "- 1074 \<le> e"
  shows "round_to_quantum (of_int m * 2 powi e) = of_int m * 2 powi e"
proof (cases "m = 0")
  case True
  then show ?thesis by (simp add: rtq_0)
next
  case False
  define r :: real where "r = of_int m * 2 powi e"
  have a: "\<bar>r\<bar> = of_int \<bar>m\<bar> * 2 powi e" by (simp add: r_def abs_mult)
  have pos: "0 < \<bar>r\<bar>" using False by (simp add: r_def)
  have "(of_int \<bar>m\<bar> :: real) < of_int (2 ^ 53)" using assms(1) by (simp only: of_int_less_iff)
  then have "\<bar>r\<bar> < of_int (2 ^ 53) * 2 powi e" unfolding a by (simp only: mult_less_cancel_right_pos zero_less_power_int zero_less_numeral)
  also have "\<dots> = 2 powi (e + 53)" by (simp add: power_int_add)
  finally have "2 powi floor_log2 \<bar>r\<bar> < (2::real) powi (e + 53)"
    using floor_log2_bounds [OF pos] by linarith
  then have "floor_log2 \<bar>r\<bar> < e + 53" by (rule pow2_less_imp)
  then have q: "quantum r \<le> e" using assms(2) by (simp add: quantum_def)
  define q where "q = quantum r"
  define d where "d = nat (e - q)"
  have "e = q + int d" using q by (simp add: d_def q_def)
  then have pe: "(2::real) powi e = 2 powi q * 2 ^ d" by (simp add: power_int_add)
  have "of_int m * 2 powi e / 2 powi q = (of_int (m * 2 ^ d) :: real)" by (simp add: pe)
  then have "round_half_even (of_int m * 2 powi e / 2 powi q) = m * 2 ^ d"
    by (simp only: rhe_of_int)
  then have "round_to_quantum (of_int m * 2 powi e) = of_int (m * 2 ^ d) * 2 powi q"
    by (simp only: round_to_quantum_def q_def r_def)
  then show ?thesis by (simp add: pe)
qed

lemma round64_fix:
  assumes "\<bar>m\<bar> < 2 ^ 53" "- 1074 \<le> e" "e \<le> 971"
  shows "round64 (of_int m * 2 powi e) = Num (of_int m * 2 powi e)"
proof -
  have "(of_int \<bar>m\<bar> :: real) < of_int (2 ^ 53)" using assms(1) by (simp only: of_int_less_iff)
  moreover have "(2::real) powi e \<le> 2 powi 971" using assms(3) by (intro power_int_increasing) simp_all
  moreover have "(0::real) < 2 powi e" by simp
  ultimately have "of_int \<bar>m\<bar> * 2 powi e < (of_int (2 ^ 53) :: real) * 2 powi 971"
    by (intro mult_less_le_imp_less) simp_all
  then have "\<bar>of_int m * 2 powi e :: real\<bar> < 2 ^ 1024" by (simp add: abs_mult)
  then show ?thesis using rtq_fix [OF assms(1,2)] by (simp add: round64_def)
qed

lemma round64_of_int:
  assumes "\<bar>m\<bar> < 2 ^ 53"
  shows "round64 (of_int m) = Num (of_int m)"
  using round64_fix [OF assms, of 0] by simp

lemma round64_numeral [simp]:
  "numeral k < (2::int) ^ 53 \<Longrightarrow> round64 (numeral k) = Num (numeral k)"
  "numeral k < (2::int) ^ 53 \<Longrightarrow> round64 (- numeral k) = Num (- numeral k)"
  "round64 0 = Num 0" "round64 1 = Num 1" "round64 (- 1) = Num (- 1)"
  using round64_of_int [of "numeral k"] round64_of_int [of "- numeral k"]
    round64_of_int [of 1] round64_of_int [of "- 1"]
  by (simp_all add: round64_def)

lemma round64_rtq:
  assumes "round64 m = Num m"
  shows "round_to_quantum m = m" "\<bar>m\<bar> < 2 ^ 1024"
  using assms by (auto simp add: round64_def rtq_0 Let_def split: if_splits)

lemma round64_le:
  assumes "round64 m = Num m" "r \<le> m"
  shows "round64 r = NegInf \<or> (\<exists>v. round64 r = Num v \<and> v \<le> m)"
proof -
  have "round_to_quantum r \<le> m" using rtq_mono [OF assms(2)] round64_rtq(1) [OF assms(1)] by simp
  moreover have "0 \<le> m" if "r = 0" using that assms(2) by simp
  ultimately show ?thesis using round64_rtq(2) [OF assms(1)]
    by (auto simp add: round64_def Let_def)
qed

lemma round64_ge:
  assumes "round64 m = Num m" "m \<le> r"
  shows "round64 r = PosInf \<or> (\<exists>v. round64 r = Num v \<and> m \<le> v)"
proof -
  have "m \<le> round_to_quantum r" using rtq_mono [OF assms(2)] round64_rtq(1) [OF assms(1)] by simp
  moreover have "m \<le> 0" if "r = 0" using that assms(2) by simp
  ultimately show ?thesis using round64_rtq(2) [OF assms(1)]
    by (auto simp add: round64_def Let_def)
qed

lemma round64_between:
  assumes "round64 a = Num a" "round64 b = Num b" "a \<le> r" "r \<le> b"
  shows "\<exists>v. round64 r = Num v \<and> a \<le> v \<and> v \<le> b"
  using round64_le [OF assms(2,4)] round64_ge [OF assms(1,3)] by auto

lemma round64_uminus:
  assumes "round64 m = Num m"
  shows "round64 (- m) = Num (- m)"
  using round64_rtq [OF assms] by (simp add: round64_def rtq_minus)

lemma quantum_ge: "- 1074 \<le> quantum r"
  by (simp add: quantum_def)

lemma rhe_abs_le:
  assumes "r \<noteq> 0"
  shows "\<bar>round_half_even (r / 2 powi quantum r)\<bar> \<le> 2 ^ 53"
proof -
  have pos: "\<And>a. 0 < a \<Longrightarrow> round_half_even (a / 2 powi quantum a) \<le> 2 ^ 53 \<and> 0 \<le> round_half_even (a / 2 powi quantum a)"
  proof -
    fix a :: real assume a: "0 < a"
    have p: "(0::real) < 2 powi quantum a" by simp
    have "round_to_quantum a \<le> of_int (2 ^ 53) * 2 powi quantum a"
      using rtq_le_binade [OF a] by (simp add: power_int_add)
    then have "(of_int (round_half_even (a / 2 powi quantum a)) :: real) \<le> of_int (2 ^ 53)"
      unfolding round_to_quantum_def using p by (simp only: mult_le_cancel_right_pos)
    then have "round_half_even (a / 2 powi quantum a) \<le> 2 ^ 53" by (simp only: of_int_le_iff)
    moreover have "0 \<le> round_to_quantum a" using a by (intro rtq_nonneg) simp
    then have "0 \<le> (of_int (round_half_even (a / 2 powi quantum a)) :: real)"
      unfolding round_to_quantum_def using p by (simp add: zero_le_mult_iff)
    then have "0 \<le> round_half_even (a / 2 powi quantum a)" by simp
    ultimately show "round_half_even (a / 2 powi quantum a) \<le> 2 ^ 53 \<and> 0 \<le> round_half_even (a / 2 powi quantum a)" by simp
  qed
  show ?thesis
  proof (cases "0 < r")
    case True
    then show ?thesis using pos [of r] by simp
  next
    case False
    then have "0 < - r" using assms by simp
    from pos [OF this] show ?thesis by (simp add: quantum_minus rhe_minus)
  qed
qed

lemma rtq_idem: "round_to_quantum (round_to_quantum r) = round_to_quantum r"
proof (cases "r = 0")
  case True
  then show ?thesis by (simp add: rtq_0)
next
  case False
  define n where "n = round_half_even (r / 2 powi quantum r)"
  have v: "round_to_quantum r = of_int n * 2 powi quantum r" by (simp add: round_to_quantum_def n_def)
  have n: "\<bar>n\<bar> \<le> 2 ^ 53" using rhe_abs_le [OF False] by (simp add: n_def)
  show ?thesis
  proof (cases "\<bar>n\<bar> < 2 ^ 53")
    case True
    then show ?thesis unfolding v using quantum_ge [of r] by (rule rtq_fix)
  next
    case False
    then have "n = 2 ^ 53 \<or> n = - (2 ^ 53)" using n by linarith
    then have "of_int n * 2 powi quantum r = (of_int 1 :: real) * 2 powi (quantum r + 53) \<or>
               of_int n * 2 powi quantum r = (of_int (- 1) :: real) * 2 powi (quantum r + 53)"
      by (auto simp add: power_int_add)
    moreover have "round_to_quantum (of_int 1 * 2 powi (quantum r + 53)) = of_int 1 * 2 powi (quantum r + 53)"
      using quantum_ge [of r] by (intro rtq_fix) simp_all
    moreover have "round_to_quantum (of_int (- 1) * 2 powi (quantum r + 53)) = of_int (- 1) * 2 powi (quantum r + 53)"
      using quantum_ge [of r] by (intro rtq_fix) simp_all
    ultimately show ?thesis unfolding v by auto
  qed
qed

lemma round64_idem:
  assumes "round64 r = Num v"
  shows "round64 v = Num v"
proof (cases "r = 0")
  case True
  then show ?thesis using assms by (simp add: round64_def)
next
  case False
  then have v: "v = round_to_quantum r" "\<bar>round_to_quantum r\<bar> < 2 ^ 1024"
    using assms by (auto simp add: round64_def Let_def split: if_splits)
  show ?thesis unfolding v(1) using v(2) rtq_idem [of r] by (simp add: round64_def Let_def)
qed

lemma double_grid:
  assumes "round64 r = Num r"
  shows "\<exists>n. r = of_int n * 2 powi (- 1074)"
proof -
  define u :: real where "u = 2 powi (- 1074)"
  define q where "q = quantum r"
  define d where "d = nat (q + 1074)"
  have qd: "q = - 1074 + int d" using quantum_ge [of r] by (simp add: d_def q_def)
  have "(2::real) powi (- 1074 + int d) = 2 powi (- 1074) * 2 powi int d"
    by (rule power_int_add) simp
  then have "(2::real) powi q = 2 powi (- 1074) * 2 powi int d"
    by (simp only: qd)
  then have "(2::real) powi q = 2 ^ d * u" by (simp only: u_def power_int_of_nat mult.commute)
  moreover have "r = of_int (round_half_even (r / 2 powi q)) * 2 powi q"
    using round64_rtq(1) [OF assms] by (simp add: round_to_quantum_def q_def)
  ultimately have "r = of_int (round_half_even (r / 2 powi q) * 2 ^ d) * u" by simp
  then show ?thesis unfolding u_def ..
qed

lemma double_diff:
  assumes "round64 a = Num a" "round64 b = Num b" "a \<noteq> b"
  shows "2 powi (- 1074) \<le> \<bar>a - b\<bar>"
proof -
  define u :: real where "u = 2 powi (- 1074)"
  have u: "0 < u" by (simp add: u_def)
  from double_grid [OF assms(1)] obtain n where a: "a = of_int n * u" unfolding u_def ..
  from double_grid [OF assms(2)] obtain m where b: "b = of_int m * u" unfolding u_def ..
  have "n \<noteq> m" using assms(3) a b by auto
  then have "1 \<le> \<bar>n - m\<bar>" by simp
  then have "(1::real) \<le> of_int \<bar>n - m\<bar>" by (simp only: of_int_1_le_iff)
  then have "1 * u \<le> of_int \<bar>n - m\<bar> * u" using u by (simp only: mult_le_cancel_right_pos)
  also have "\<dots> = \<bar>a - b\<bar>" unfolding a b using u by (simp add: abs_mult flip: left_diff_distrib)
  finally show ?thesis by (simp add: u_def)
qed

lemma round64_half:
  assumes "round64 w = Num w" "2 powi (- 1021) \<le> w"
  shows "round64 (w / 2) = Num (w / 2)"
proof -
  have w: "0 < w" using assms(2) zero_less_power_int [of "2::real" "- 1021"] by linarith
  have "(2::real) powi (- 1021) < 2 powi (floor_log2 w + 1)"
    using floor_log2_bounds [OF w] assms(2) by linarith
  then have fl: "- 1021 < floor_log2 w + 1" by (rule pow2_less_imp)
  then have q: "quantum w = floor_log2 w - 52" using w by (simp add: quantum_def)
  have "floor_log2 (w / 2) = floor_log2 w - 1"
    using floor_log2_bounds [OF w] by (intro floor_log2_unique) (simp_all add: power_int_diff power_int_add)
  then have q2: "quantum (w / 2) = quantum w - 1" using fl w q by (simp add: quantum_def)
  have "w / 2 / 2 powi (quantum w - 1) = w / 2 powi quantum w" by (simp add: power_int_diff)
  then have "round_to_quantum (w / 2) = round_to_quantum w / 2"
    unfolding round_to_quantum_def q2 by (simp add: power_int_diff)
  then show ?thesis using round64_rtq [OF assms(1)] w by (simp add: round64_def)
qed

lemma round64_tiny_tie: "round64 (2 powi (- 1074) / 2) = Num 0"
proof -
  have "floor_log2 (2 powi (- 1074) / 2) = - 1075"
    by (intro floor_log2_unique) (simp_all add: power_int_minus_divide)
  then have q: "quantum (2 powi (- 1074) / 2) = - 1074" by (simp add: quantum_def)
  have "round_half_even (1 / 2) = 0" by (simp add: round_half_even_def)
  then have "round_to_quantum (2 powi (- 1074) / 2) = 0"
    unfolding round_to_quantum_def q by simp
  then show ?thesis by (simp add: round64_def)
qed

section \<open>Properties of the pointer-tilt card\<close>

text \<open>Each step of the computation of one tilt component keeps a bound: a sample inside
  the surface stays within the centre, the quotient within 1 and the product within 8;
  a sample beyond an edge stays beyond.\<close>

lemma round64_magnitude:
  assumes "round64 m = Num m" "\<bar>r\<bar> \<le> m"
  shows "magnitude_le m (round64 r)"
proof -
  have "- m \<le> r" "r \<le> m" using assms(2) by linarith+
  from round64_between [OF round64_uminus [OF assms(1)] assms(1) this]
  show ?thesis by (auto simp add: magnitude_le_def)
qed

lemma round64_at_least:
  assumes "round64 m = Num m" "m \<le> r"
  shows "at_least m (round64 r)"
  using round64_ge [OF assms] by (auto simp add: at_least_def)

lemma round64_at_most:
  assumes "round64 m = Num m" "r \<le> m"
  shows "at_most m (round64 r)"
  using round64_le [OF assms] by (auto simp add: at_most_def)

lemma sub_inside:
  assumes "round64 c = Num c" "0 \<le> s" "s \<le> 2 * c"
  shows "magnitude_le c (js_sub (Num s) (Num c))"
  using assms by (simp add: round64_magnitude)

lemma div_inside:
  assumes "0 < c" "magnitude_le c d"
  shows "magnitude_le 1 (js_div d (Num c))"
proof -
  from assms(2) obtain a where d: "d = Num a" and a: "\<bar>a\<bar> \<le> c"
    by (auto simp add: magnitude_le_def split: jsnum.splits)
  have "\<bar>a / c\<bar> \<le> 1" using a assms(1) by simp
  then have "magnitude_le 1 (round64 (a / c))" by (intro round64_magnitude) simp_all
  then show ?thesis using assms(1) by (simp add: d)
qed

lemma mul_inside:
  assumes "magnitude_le 1 q"
  shows "magnitude_le 8 (js_mul q (Num 8))" "magnitude_le 8 (js_mul q (Num (- 8)))"
proof -
  from assms obtain a where q: "q = Num a" and a: "\<bar>a\<bar> \<le> 1"
    by (auto simp add: magnitude_le_def split: jsnum.splits)
  have "\<bar>a * 8\<bar> \<le> 8" "\<bar>a * (- 8)\<bar> \<le> 8" using a by (simp_all add: abs_mult)
  then have "magnitude_le 8 (round64 (a * 8))" "magnitude_le 8 (round64 (a * (- 8)))"
    by (intro round64_magnitude; simp)+
  then show "magnitude_le 8 (js_mul q (Num 8))" "magnitude_le 8 (js_mul q (Num (- 8)))"
    by (simp_all add: q)
qed

lemma sub_at_least:
  assumes "round64 c = Num c" "at_least (2 * c) x"
  shows "at_least c (js_sub x (Num c))"
  using assms by (cases x) (simp_all add: at_least_def round64_at_least [unfolded at_least_def])

lemma div_at_least:
  assumes "0 < c" "at_least c d"
  shows "at_least 1 (js_div d (Num c))"
proof (cases d)
  case (Num a)
  then have "1 \<le> a / c" using assms by (simp add: at_least_def)
  then have "at_least 1 (round64 (a / c))" by (intro round64_at_least) simp_all
  then show ?thesis using assms(1) Num by simp
qed (use assms in \<open>simp_all add: at_least_def\<close>)

lemma mul_at_least:
  assumes "at_least 1 q"
  shows "at_least 8 (js_mul q (Num 8))" "at_most (- 8) (js_mul q (Num (- 8)))"
proof -
  show "at_least 8 (js_mul q (Num 8))"
  proof (cases q)
    case (Num a)
    then have "8 \<le> a * 8" using assms by (simp add: at_least_def)
    then have "at_least 8 (round64 (a * 8))" by (intro round64_at_least) simp_all
    then show ?thesis using Num by simp
  qed (use assms in \<open>simp_all add: at_least_def inf_of_sign_def\<close>)
  show "at_most (- 8) (js_mul q (Num (- 8)))"
  proof (cases q)
    case (Num a)
    then have "a * (- 8) \<le> - 8" using assms by (simp add: at_least_def)
    then have "at_most (- 8) (round64 (a * (- 8)))" by (intro round64_at_most) simp_all
    then show ?thesis using Num by simp
  qed (use assms in \<open>simp_all add: at_least_def at_most_def inf_of_sign_def\<close>)
qed

lemma sub_at_most:
  assumes "round64 c = Num c" "at_most 0 x"
  shows "at_most (- c) (js_sub x (Num c))"
proof (cases x)
  case (Num s)
  then have "s - c \<le> - c" using assms(2) by (simp add: at_most_def)
  then have "at_most (- c) (round64 (s - c))"
    by (intro round64_at_most round64_uminus assms(1))
  then show ?thesis using Num by simp
qed (use assms in \<open>simp_all add: at_most_def\<close>)

lemma div_at_most:
  assumes "0 < c" "at_most (- c) d"
  shows "at_most (- 1) (js_div d (Num c))"
proof (cases d)
  case (Num a)
  then have "a / c \<le> - 1" using assms by (simp add: at_most_def field_simps)
  then have "at_most (- 1) (round64 (a / c))" by (intro round64_at_most) simp_all
  then show ?thesis using assms(1) Num by simp
qed (use assms in \<open>simp_all add: at_most_def\<close>)

lemma mul_at_most:
  assumes "at_most (- 1) q"
  shows "at_most (- 8) (js_mul q (Num 8))" "at_least 8 (js_mul q (Num (- 8)))"
proof -
  show "at_most (- 8) (js_mul q (Num 8))"
  proof (cases q)
    case (Num a)
    then have "a * 8 \<le> - 8" using assms by (simp add: at_most_def)
    then have "at_most (- 8) (round64 (a * 8))" by (intro round64_at_most) simp_all
    then show ?thesis using Num by simp
  qed (use assms in \<open>simp_all add: at_most_def inf_of_sign_def\<close>)
  show "at_least 8 (js_mul q (Num (- 8)))"
  proof (cases q)
    case (Num a)
    then have "8 \<le> a * (- 8)" using assms by (simp add: at_most_def)
    then have "at_least 8 (round64 (a * (- 8)))" by (intro round64_at_least) simp_all
    then show ?thesis using Num by simp
  qed (use assms in \<open>simp_all add: at_least_def at_most_def inf_of_sign_def\<close>)
qed

text \<open>The two components of the tilt after a move, in terms of the sample.\<close>

lemma move_tilt_x:
  "tilt_x (handleMouseMove (Some k) e t) =
     js_mul (js_div (js_sub (sampleY e) (js_div (rect_height (rect e)) (Num 2)))
                    (js_div (rect_height (rect e)) (Num 2))) (Num (- 8))"
  by (simp add: handleMouseMove_def sampleY_def Let_def)

lemma move_tilt_y:
  "tilt_y (handleMouseMove (Some k) e t) =
     js_mul (js_div (js_sub (sampleX e) (js_div (rect_width (rect e)) (Num 2)))
                    (js_div (rect_width (rect e)) (Num 2))) (Num 8)"
  by (simp add: handleMouseMove_def sampleX_def Let_def)

text \<open>Halving a double of at least \<open>2 ^ - 1021\<close> is exact.\<close>

lemma centre_exact:
  assumes "is_double w" "2 powi (- 1021) \<le> w"
  shows "js_div (Num w) (Num 2) = Num (w / 2)" "round64 (w / 2) = Num (w / 2)" "0 < w / 2"
proof -
  show h: "round64 (w / 2) = Num (w / 2)"
    using assms by (intro round64_half) (simp_all add: is_double_def)
  then show "js_div (Num w) (Num 2) = Num (w / 2)" by simp
  have "(0::real) < 2 powi (- 1021)" by (rule zero_less_power_int) simp
  then show "0 < w / 2" using assms(2) by linarith
qed

lemma small_doubles [simp]: "is_double 200" "is_double 100" "is_double 0" "is_double 10"
  by (simp_all add: is_double_def)

lemma sample_pointer_event:
  "sampleX (pointer_event cx cy l tp w h) = round64 (cx - l)"
  "sampleY (pointer_event cx cy l tp w h) = round64 (cy - tp)"
  "rect_width (rect (pointer_event cx cy l tp w h)) = Num w"
  "rect_height (rect (pointer_event cx cy l tp w h)) = Num h"
  by (simp_all add: sampleX_def sampleY_def pointer_event_def)

lemma axis_inside:
  assumes "is_double w" "2 powi (- 1021) \<le> w" "0 \<le> s" "s \<le> w"
  shows "magnitude_le 8 (js_mul (js_div (js_sub (Num s) (js_div (Num w) (Num 2)))
                                        (js_div (Num w) (Num 2))) (Num 8))"
    and "magnitude_le 8 (js_mul (js_div (js_sub (Num s) (js_div (Num w) (Num 2)))
                                        (js_div (Num w) (Num 2))) (Num (- 8)))"
proof -
  note c = centre_exact [OF assms(1,2)]
  have "magnitude_le (w / 2) (js_sub (Num s) (Num (w / 2)))"
    using c(2) assms(3,4) by (intro sub_inside) simp_all
  then have q: "magnitude_le 1 (js_div (js_sub (Num s) (Num (w / 2))) (Num (w / 2)))"
    using c(3) by (intro div_inside)
  show "magnitude_le 8 (js_mul (js_div (js_sub (Num s) (js_div (Num w) (Num 2)))
                                        (js_div (Num w) (Num 2))) (Num 8))"
    unfolding c(1) using q by (rule mul_inside)
  show "magnitude_le 8 (js_mul (js_div (js_sub (Num s) (js_div (Num w) (Num 2)))
                                        (js_div (Num w) (Num 2))) (Num (- 8)))"
    unfolding c(1) using q by (rule mul_inside)
qed

lemma axis_above:
  assumes "is_double w" "2 powi (- 1021) \<le> w" "at_least w x"
  shows "at_least 8 (js_mul (js_div (js_sub x (js_div (Num w) (Num 2)))
                                    (js_div (Num w) (Num 2))) (Num 8))"
    and "at_most (- 8) (js_mul (js_div (js_sub x (js_div (Num w) (Num 2)))
                                       (js_div (Num w) (Num 2))) (Num (- 8)))"
proof -
  note c = centre_exact [OF assms(1,2)]
  have "at_least (w / 2) (js_sub x (Num (w / 2)))"
    using c(2) assms(3) by (intro sub_at_least) simp_all
  then have q: "at_least 1 (js_div (js_sub x (Num (w / 2))) (Num (w / 2)))"
    using c(3) by (intro div_at_least)
  show "at_least 8 (js_mul (js_div (js_sub x (js_div (Num w) (Num 2)))
                                    (js_div (Num w) (Num 2))) (Num 8))"
    unfolding c(1) using q by (rule mul_at_least)
  show "at_most (- 8) (js_mul (js_div (js_sub x (js_div (Num w) (Num 2)))
                                       (js_div (Num w) (Num 2))) (Num (- 8)))"
    unfolding c(1) using q by (rule mul_at_least)
qed

lemma axis_below:
  assumes "is_double w" "2 powi (- 1021) \<le> w" "at_most 0 x"
  shows "at_most (- 8) (js_mul (js_div (js_sub x (js_div (Num w) (Num 2)))
                                    (js_div (Num w) (Num 2))) (Num 8))"
    and "at_least 8 (js_mul (js_div (js_sub x (js_div (Num w) (Num 2)))
                                       (js_div (Num w) (Num 2))) (Num (- 8)))"
proof -
  note c = centre_exact [OF assms(1,2)]
  have "at_most (- (w / 2)) (js_sub x (Num (w / 2)))"
    using c(2) assms(3) by (intro sub_at_most)
  then have q: "at_most (- 1) (js_div (js_sub x (Num (w / 2))) (Num (w / 2)))"
    using c(3) by (intro div_at_most)
  show "at_most (- 8) (js_mul (js_div (js_sub x (js_div (Num w) (Num 2)))
                                    (js_div (Num w) (Num 2))) (Num 8))"
    unfolding c(1) using q by (rule mul_at_most)
  show "at_least 8 (js_mul (js_div (js_sub x (js_div (Num w) (Num 2)))
                                       (js_div (Num w) (Num 2))) (Num (- 8)))"
    unfolding c(1) using q by (rule mul_at_most)
qed

lemma magnitude_le_finite: "magnitude_le m v \<Longrightarrow> is_finite v"
  by (cases v) (simp_all add: magnitude_le_def is_finite_def)

lemma round64_min_subnormal: "round64 (2 powi (- 1074)) = Num (2 powi (- 1074))"
  using round64_fix [of 1 "- 1074"] by (simp only: of_int_1 mult_1) simp

text \<open>A division by a zero centre never gives a finite number, and the difference of two
  doubles keeps its sign when it is rounded.\<close>

lemma inf_of_sign_not_finite: "\<not> is_finite (inf_of_sign a)"
  by (simp add: inf_of_sign_def is_finite_def)

lemma div_zero_not_finite: "\<not> is_finite (js_div v (Num 0))"
  by (cases v) (simp_all add: is_finite_def inf_of_sign_not_finite [unfolded is_finite_def])

lemma mul_not_finite:
  assumes "\<not> is_finite v"
  shows "\<not> is_finite (js_mul v (Num 8))" "\<not> is_finite (js_mul v (Num (- 8)))"
  using assms by (cases v; simp add: is_finite_def inf_of_sign_def)+

lemma zero_width_not_finite:
  "\<not> is_finite (tilt_y (handleMouseMove (Some k) (pointer_event cx cy l tp 0 h) t))"
  unfolding move_tilt_y sample_pointer_event
  by (intro mul_not_finite) (simp add: div_zero_not_finite)

lemma zero_height_not_finite:
  "\<not> is_finite (tilt_x (handleMouseMove (Some k) (pointer_event cx cy l tp w 0) t))"
  unfolding move_tilt_x sample_pointer_event
  by (intro mul_not_finite) (simp add: div_zero_not_finite)

lemma double_diff_sign:
  assumes "is_double a" "is_double b"
  shows "js_div (js_sub (round64 (a - b)) (Num 0)) (Num 0) = inf_of_sign (a - b)"
proof (cases "a = b")
  case True
  then show ?thesis by (simp add: inf_of_sign_def)
next
  case False
  define u :: real where "u = 2 powi (- 1074)"
  have u: "0 < u" "round64 u = Num u"
    by (simp_all add: u_def round64_min_subnormal del: power_int_numeral_neg_numeral)
  have d: "u \<le> \<bar>a - b\<bar>"
    using double_diff [OF assms [unfolded is_double_def] False] by (simp only: u_def)
  have keep: "js_div (js_sub (Num s) (Num 0)) (Num 0) = inf_of_sign s"
    if "round64 (a - b) = Num s" for s
    using round64_idem [OF that] by simp
  show ?thesis
  proof (cases "0 < a - b")
    case True
    then have "u \<le> a - b" using d by simp
    from round64_ge [OF u(2) this] show ?thesis
      using u(1) True keep by (auto simp add: inf_of_sign_def)
  next
    case False
    then have "a - b \<le> - u" using d by linarith
    from round64_le [OF round64_uminus [OF u(2)] this] show ?thesis
      using u(1) False keep by (auto simp add: inf_of_sign_def)
  qed
qed

lemma js_sub_double:
  assumes "js_sub x y = Num s"
  shows "round64 s = Num s"
  using assms by (cases x; cases y) (auto intro: round64_idem)

lemma sample_double:
  "sampleX e = Num s \<Longrightarrow> round64 s = Num s"
  "sampleY e = Num s \<Longrightarrow> round64 s = Num s"
  unfolding sampleX_def sampleY_def by (rule js_sub_double, assumption)+

lemma mul_inf_of_sign:
  "js_mul (inf_of_sign a) (Num 8) = inf_of_sign a"
  "js_mul (inf_of_sign a) (Num (- 8)) = inf_of_sign (- a)"
  by (simp_all add: inf_of_sign_def)

text \<open>Examples of the rounding. The quotient \<open>16 / 3\<close> is not representable and is
  rounded to \<^verbatim>\<open>5.333333333333333\<close>; the difference of \<open>2 ^ 1023\<close> and \<open>- 2 ^ 1023\<close>
  overflows. In the handler: the sample (1, 1) on a 6 by 6 surface; the sample on the
  right edge of a surface of width \<open>5 * 2 ^ - 1074\<close>, whose half rounds down to
  \<open>2 * 2 ^ - 1074\<close>; and a pointer at \<open>2 ^ 1023\<close> over a rectangle whose corner is at
  \<open>- 2 ^ 1023\<close>.\<close>

lemma round64_example_inexact: "round64 (16 / 3) = Num (6004799503160661 / 2 ^ 50)"
proof -
  have "floor_log2 (16 / 3) = 2" by (intro floor_log2_unique) simp_all
  then have q: "quantum (16 / 3) = - 50" by (simp add: quantum_def)
  have "round_half_even (16 / 3 / 2 powi (- 50)) = 6004799503160661"
    by (simp add: round_half_even_def Let_def)
  then have "round_to_quantum (16 / 3) = 6004799503160661 / 2 ^ 50"
    unfolding round_to_quantum_def q by simp
  then show ?thesis by (simp add: round64_def)
qed

lemma round64_example_overflow: "round64 (2 ^ 1023 - (- (2 ^ 1023))) = PosInf"
proof -
  have e: "(2::real) ^ 1023 - (- (2 ^ 1023)) = 2 powi 1024" by simp
  have "floor_log2 (2 powi 1024) = 1024" by (intro floor_log2_unique) simp_all
  then have q: "quantum (2 powi 1024) = 972" by (simp add: quantum_def)
  have "(2::real) powi 1024 / 2 powi 972 = of_int (2 ^ 52)" by simp
  then have "round_half_even (2 powi 1024 / 2 powi 972) = 2 ^ 52" by (simp only: rhe_of_int)
  then have "round_to_quantum (2 powi 1024) = 2 powi 1024"
    unfolding round_to_quantum_def q by simp
  then show ?thesis unfolding e by (simp add: round64_def)
qed

lemma handleMouseMove_example_inexact:
  "handleMouseMove (Some ()) (pointer_event 1 1 0 0 6 6) initial_tilt =
     \<lparr>tilt_x = Num (6004799503160661 / 2 ^ 50), tilt_y = Num (- (6004799503160661 / 2 ^ 50))\<rparr>"
proof -
  have "floor_log2 (2 / 3) = - 1" by (intro floor_log2_unique) simp_all
  then have q: "quantum (- (2 / 3)) = - 53" by (simp add: quantum_def)
  have "round_half_even (2 / 3 / 2 powi (- 53)) = 6004799503160661"
    by (simp add: round_half_even_def Let_def)
  then have "round_half_even (- (2 / 3) / 2 powi (- 53)) = - 6004799503160661"
    using rhe_minus [of "2 / 3 / 2 powi (- 53)"] by simp
  then have "round_to_quantum (- (2 / 3)) = - (6004799503160661 / 2 ^ 53)"
    unfolding round_to_quantum_def q by simp
  then have third: "round64 (- (2 / 3)) = Num (- (6004799503160661 / 2 ^ 53))"
    by (simp add: round64_def)
  have "round64 (of_int 6004799503160661 * 2 powi (- 50)) =
      Num (of_int 6004799503160661 * 2 powi (- 50))"
    by (intro round64_fix) simp_all
  then have pos: "round64 (6004799503160661 / 2 ^ 50) = Num (6004799503160661 / 2 ^ 50)"
    by simp
  from round64_uminus [OF this]
  have neg: "round64 (- (6004799503160661 / 2 ^ 50)) = Num (- (6004799503160661 / 2 ^ 50))"
    by simp
  show ?thesis
    using third pos neg by (simp add: handleMouseMove_def pointer_event_def Let_def)
qed

lemma handleMouseMove_example_subnormal:
  "handleMouseMove (Some ())
     (pointer_event (5 * 2 powi (- 1074)) 50 0 0 (5 * 2 powi (- 1074)) 100) initial_tilt =
     \<lparr>tilt_x = Num 0, tilt_y = Num 12\<rparr>"
proof -
  define u :: real where "u = 2 powi (- 1074)"
  have u: "0 < u" by (simp add: u_def)
  have m: "round64 (of_int m * u) = Num (of_int m * u)" if "\<bar>m\<bar> < 2 ^ 53" for m
    unfolding u_def using that by (intro round64_fix) simp_all
  have five: "round64 (5 * u) = Num (5 * u)" using m [of 5] by simp
  have three: "round64 (3 * u) = Num (3 * u)" using m [of 3] by simp
  have "2 powi (- 1073) = 2 * u"
    using power_int_add [of "2::real" "- 1074" 1] by (simp add: u_def)
  moreover have "2 powi (- 1073 + 1) = 4 * u"
    using power_int_add [of "2::real" "- 1074" 2] by (simp add: u_def)
  ultimately have "floor_log2 (5 * u / 2) = - 1073"
    using u by (intro floor_log2_unique) (simp_all del: power_int_numeral_neg_numeral)
  then have q: "quantum (5 * u / 2) = - 1074" using u by (simp add: quantum_def)
  have "5 * u / 2 / 2 powi (- 1074) = 5 / 2" using u by (simp add: u_def)
  moreover have "round_half_even (5 / 2) = 2" by (simp add: round_half_even_def Let_def)
  ultimately have "round_to_quantum (5 * u / 2) = 2 * u"
    unfolding round_to_quantum_def q by (simp add: u_def)
  moreover have "u \<le> 1" by (simp add: u_def)
  then have "\<bar>2 * u\<bar> < 2 ^ 1024" using u by simp
  ultimately have half: "round64 (5 * u / 2) = Num (2 * u)"
    using u by (simp add: round64_def Let_def)
  have "round64 (of_int 3 * 2 powi (- 1)) = Num (of_int 3 * 2 powi (- 1))"
    by (intro round64_fix) simp_all
  then have q15: "round64 (3 / 2) = Num (3 / 2)" by simp
  have "handleMouseMove (Some ()) (pointer_event (5 * u) 50 0 0 (5 * u) 100) initial_tilt =
      \<lparr>tilt_x = Num 0, tilt_y = Num 12\<rparr>"
    using u five three half q15
    by (simp add: handleMouseMove_def pointer_event_def Let_def)
  then show ?thesis by (simp only: u_def)
qed

lemma handleMouseMove_example_overflow:
  "handleMouseMove (Some ()) (pointer_event (2 ^ 1023) 0 (- (2 ^ 1023)) 0 200 100) initial_tilt =
     \<lparr>tilt_x = Num 8, tilt_y = PosInf\<rparr>"
  using round64_example_overflow
  by (simp add: handleMouseMove_def pointer_event_def Let_def inf_of_sign_def)

text \<open>
  Claim C1, as stated: for every surface size and every pointer sample, also outside the
  surface, the tilt pair is finite and each component is at most 8 in magnitude.
  This fails: the handler does not clamp. On a 200 by 100 surface the sample (300, 0),
  to the right of the surface, gives the tilt (8, 16).
\<close>

theorem C1_tilt_exceeds_8_outside_surface:
  "handleMouseMove (Some ()) (pointer_event 300 0 0 0 200 100) initial_tilt =
     \<lparr>tilt_x = Num 8, tilt_y = Num 16\<rparr> \<and>
   \<not> magnitude_le 8
        (tilt_y (handleMouseMove (Some ()) (pointer_event 300 0 0 0 200 100) initial_tilt))"
  by (simp add: handleMouseMove_def pointer_event_def Let_def magnitude_le_def)

text \<open>
  Claim C1, amended: for every surface whose width and height are doubles of at least
  \<open>2 ^ - 1021\<close> (so that halving them is exact) and every pointer sample within the surface
  bounds, the tilt pair is finite and each component is at most 8 in magnitude. A sample
  outside the bounds is not clamped: at or beyond the right or bottom edge, and at or
  before the left or top edge, the component is at least 8 in magnitude or infinite.
\<close>

theorem C1_tilt_bounded_inside_surface_only:
  assumes "rect_width (rect e) = Num w" and "is_double w" and "2 powi (- 1021) \<le> w"
    and "rect_height (rect e) = Num h" and "is_double h" and "2 powi (- 1021) \<le> h"
  shows "(in_range 0 w (sampleX e) \<longrightarrow>
           is_finite (tilt_y (handleMouseMove (Some k) e t)) \<and>
           magnitude_le 8 (tilt_y (handleMouseMove (Some k) e t))) \<and>
         (in_range 0 h (sampleY e) \<longrightarrow>
           is_finite (tilt_x (handleMouseMove (Some k) e t)) \<and>
           magnitude_le 8 (tilt_x (handleMouseMove (Some k) e t))) \<and>
         (at_least w (sampleX e) \<longrightarrow> at_least 8 (tilt_y (handleMouseMove (Some k) e t))) \<and>
         (at_most 0 (sampleX e) \<longrightarrow> at_most (- 8) (tilt_y (handleMouseMove (Some k) e t))) \<and>
         (at_least h (sampleY e) \<longrightarrow> at_most (- 8) (tilt_x (handleMouseMove (Some k) e t))) \<and>
         (at_most 0 (sampleY e) \<longrightarrow> at_least 8 (tilt_x (handleMouseMove (Some k) e t)))"
proof (intro conjI impI)
  {
    assume "in_range 0 w (sampleX e)"
    then obtain s where s: "sampleX e = Num s" "0 \<le> s" "s \<le> w"
      by (auto simp add: in_range_def split: jsnum.splits)
    show "magnitude_le 8 (tilt_y (handleMouseMove (Some k) e t))"
      unfolding move_tilt_y assms(1) s(1)
      using assms(2,3) s(2,3) by (rule axis_inside)
    then show "is_finite (tilt_y (handleMouseMove (Some k) e t))" by (rule magnitude_le_finite)
  }
  {
    assume "in_range 0 h (sampleY e)"
    then obtain s where s: "sampleY e = Num s" "0 \<le> s" "s \<le> h"
      by (auto simp add: in_range_def split: jsnum.splits)
    show "magnitude_le 8 (tilt_x (handleMouseMove (Some k) e t))"
      unfolding move_tilt_x assms(4) s(1)
      using assms(5,6) s(2,3) by (rule axis_inside)
    then show "is_finite (tilt_x (handleMouseMove (Some k) e t))" by (rule magnitude_le_finite)
  }
  {
    assume "at_least w (sampleX e)"
    with assms(2,3) show "at_least 8 (tilt_y (handleMouseMove (Some k) e t))"
      unfolding move_tilt_y assms(1) by (rule axis_above)
  }
  {
    assume "at_most 0 (sampleX e)"
    with assms(2,3) show "at_most (- 8) (tilt_y (handleMouseMove (Some k) e t))"
      unfolding move_tilt_y assms(1) by (rule axis_below)
  }
  {
    assume "at_least h (sampleY e)"
    with assms(5,6) show "at_most (- 8) (tilt_x (handleMouseMove (Some k) e t))"
      unfolding move_tilt_x assms(4) by (rule axis_above)
  }
  {
    assume "at_most 0 (sampleY e)"
    with assms(5,6) show "at_least 8 (tilt_x (handleMouseMove (Some k) e t))"
      unfolding move_tilt_x assms(4) by (rule axis_below)
  }
qed

theorem C1_tilt_bounded_inside_surface_only_witness:
  "rect_width (rect (pointer_event 300 0 0 0 200 100)) = Num 200 \<and> is_double 200 \<and>
   2 powi (- 1021) \<le> (200::real) \<and>
   rect_height (rect (pointer_event 300 0 0 0 200 100)) = Num 100 \<and> is_double 100 \<and>
   2 powi (- 1021) \<le> (100::real) \<and>
   in_range 0 100 (sampleY (pointer_event 300 0 0 0 200 100)) \<and>
   at_least 200 (sampleX (pointer_event 300 0 0 0 200 100)) \<and>
   is_finite (tilt_x (handleMouseMove (Some ()) (pointer_event 300 0 0 0 200 100) initial_tilt)) \<and>
   magnitude_le 8 (tilt_x (handleMouseMove (Some ()) (pointer_event 300 0 0 0 200 100) initial_tilt)) \<and>
   at_least 8 (tilt_y (handleMouseMove (Some ()) (pointer_event 300 0 0 0 200 100) initial_tilt))"
  using C1_tilt_bounded_inside_surface_only [where e = "pointer_event 300 0 0 0 200 100"
      and w = 200 and h = 100 and k = "()" and t = initial_tilt]
  by (simp add: sample_pointer_event in_range_def at_least_def at_most_def)

text \<open>
  Claim C2, as stated: on a degenerate surface (zero width or zero height) the handler
  outputs the tilt (0, 0) for every sample; the division by zero is guarded.
  This fails: the handler has no guard. On a 0 by 0 surface the sample (10, 10) gives the
  tilt (-Infinity, +Infinity).
\<close>

theorem C2_degenerate_surface_not_neutral:
  "handleMouseMove (Some ()) (pointer_event 10 10 0 0 0 0) initial_tilt =
     \<lparr>tilt_x = NegInf, tilt_y = PosInf\<rparr> \<and>
   handleMouseMove (Some ()) (pointer_event 10 10 0 0 0 0) initial_tilt \<noteq>
     \<lparr>tilt_x = Num 0, tilt_y = Num 0\<rparr>"
  by (simp add: handleMouseMove_def pointer_event_def Let_def inf_of_sign_def)

text \<open>
  Claim C2, amended: the division is not guarded. On a surface of zero width, \<open>tiltY\<close> is
  never finite: it is NaN for a sample with horizontal coordinate 0, +Infinity to the right
  of it and -Infinity to the left. On a surface of zero height, \<open>tiltX\<close> is never finite: NaN
  for a sample with vertical coordinate 0, -Infinity below it and +Infinity above. This
  holds of the sample as the handler computes it and, the pointer position and the corner
  of the rectangle being doubles, of their exact difference, whose sign the rounding keeps.
\<close>

theorem C2_degenerate_surface_unguarded:
  "(rect_width (rect e) = Num 0 \<and> sampleX e = Num sx \<longrightarrow>
      tilt_y (handleMouseMove (Some k) e t) =
        (if sx = 0 then NaN else if 0 < sx then PosInf else NegInf)) \<and>
   (rect_height (rect e) = Num 0 \<and> sampleY e = Num sy \<longrightarrow>
      tilt_x (handleMouseMove (Some k) e t) =
        (if sy = 0 then NaN else if 0 < sy then NegInf else PosInf)) \<and>
   (is_double cx \<and> is_double l \<longrightarrow>
      tilt_y (handleMouseMove (Some k) (pointer_event cx cy l tp 0 h) t) =
        (if cx - l = 0 then NaN else if 0 < cx - l then PosInf else NegInf)) \<and>
   (is_double cy \<and> is_double tp \<longrightarrow>
      tilt_x (handleMouseMove (Some k) (pointer_event cx cy l tp w 0) t) =
        (if cy - tp = 0 then NaN else if 0 < cy - tp then NegInf else PosInf)) \<and>
   \<not> is_finite (tilt_y (handleMouseMove (Some k) (pointer_event cx cy l tp 0 h) t)) \<and>
   \<not> is_finite (tilt_x (handleMouseMove (Some k) (pointer_event cx cy l tp w 0) t))"
proof (intro conjI impI)
  assume a: "rect_width (rect e) = Num 0 \<and> sampleX e = Num sx"
  then have "round64 sx = Num sx" by (auto dest: sample_double)
  then show "tilt_y (handleMouseMove (Some k) e t) =
        (if sx = 0 then NaN else if 0 < sx then PosInf else NegInf)"
    unfolding move_tilt_y using a by (simp add: inf_of_sign_def)
next
  assume a: "rect_height (rect e) = Num 0 \<and> sampleY e = Num sy"
  then have "round64 sy = Num sy" by (auto dest: sample_double)
  then show "tilt_x (handleMouseMove (Some k) e t) =
        (if sy = 0 then NaN else if 0 < sy then NegInf else PosInf)"
    unfolding move_tilt_x using a by (simp add: inf_of_sign_def)
next
  assume "is_double cx \<and> is_double l"
  then have "js_div (js_sub (round64 (cx - l)) (Num 0)) (Num 0) = inf_of_sign (cx - l)"
    by (intro double_diff_sign) simp_all
  then show "tilt_y (handleMouseMove (Some k) (pointer_event cx cy l tp 0 h) t) =
        (if cx - l = 0 then NaN else if 0 < cx - l then PosInf else NegInf)"
    unfolding move_tilt_y sample_pointer_event
    by (simp add: mul_inf_of_sign) (simp add: inf_of_sign_def)
next
  assume "is_double cy \<and> is_double tp"
  then have "js_div (js_sub (round64 (cy - tp)) (Num 0)) (Num 0) = inf_of_sign (cy - tp)"
    by (intro double_diff_sign) simp_all
  then show "tilt_x (handleMouseMove (Some k) (pointer_event cx cy l tp w 0) t) =
        (if cy - tp = 0 then NaN else if 0 < cy - tp then NegInf else PosInf)"
    unfolding move_tilt_x sample_pointer_event
    by (simp add: mul_inf_of_sign) (simp add: inf_of_sign_def)
qed (rule zero_width_not_finite zero_height_not_finite)+

theorem C2_degenerate_surface_unguarded_witness:
  "is_double 10 \<and> is_double 0 \<and>
   rect_width (rect (pointer_event 0 (- 10) 0 0 0 0)) = Num 0 \<and>
   sampleX (pointer_event 0 (- 10) 0 0 0 0) = Num 0 \<and>
   rect_height (rect (pointer_event 0 (- 10) 0 0 0 0)) = Num 0 \<and>
   sampleY (pointer_event 0 (- 10) 0 0 0 0) = Num (- 10) \<and>
   tilt_y (handleMouseMove (Some ()) (pointer_event 0 (- 10) 0 0 0 0) initial_tilt) = NaN \<and>
   tilt_x (handleMouseMove (Some ()) (pointer_event 0 (- 10) 0 0 0 0) initial_tilt) = PosInf \<and>
   tilt_y (handleMouseMove (Some ()) (pointer_event 10 10 0 0 0 0) initial_tilt) = PosInf \<and>
   tilt_x (handleMouseMove (Some ()) (pointer_event 10 10 0 0 0 0) initial_tilt) = NegInf"
  using C2_degenerate_surface_unguarded [where e = "pointer_event 0 (- 10) 0 0 0 0"
      and sx = 0 and sy = "- 10" and cx = 10 and cy = 10 and l = 0 and tp = 0
      and w = 0 and h = 0 and k = "()" and t = initial_tilt]
  by (simp add: sample_pointer_event)



text \<open>
  Claim C5, as stated: for every positive surface width and height and every sample with
  \<open>sampleX\<close> in \<open>[0, surfaceWidth]\<close> and \<open>sampleY\<close> in \<open>[0, surfaceHeight]\<close>, the computed
  \<open>tiltX\<close> and \<open>tiltY\<close> both lie in \<open>[-8, 8]\<close>.
  This fails for the smallest positive width, \<open>2 ^ - 1074\<close>: its half rounds to zero, so
  the sample on the right edge is divided by zero and \<open>tiltY\<close> is +Infinity.
\<close>

theorem C5_smallest_width_gives_infinite_tilt:
  "(0::real) < 2 powi (- 1074) \<and> (0::real) < 100 \<and>
   sampleX (pointer_event (2 powi (- 1074)) 50 0 0 (2 powi (- 1074)) 100) =
     Num (2 powi (- 1074)) \<and>
   sampleY (pointer_event (2 powi (- 1074)) 50 0 0 (2 powi (- 1074)) 100) = Num 50 \<and>
   handleMouseMove (Some ()) (pointer_event (2 powi (- 1074)) 50 0 0 (2 powi (- 1074)) 100)
       initial_tilt = \<lparr>tilt_x = Num 0, tilt_y = PosInf\<rparr> \<and>
   \<not> magnitude_le 8 (tilt_y (handleMouseMove (Some ())
       (pointer_event (2 powi (- 1074)) 50 0 0 (2 powi (- 1074)) 100) initial_tilt))"
proof -
  define u :: real where "u = 2 powi (- 1074)"
  have u: "0 < u" "round64 u = Num u" "round64 (u / 2) = Num 0"
    by (simp_all add: u_def round64_min_subnormal round64_tiny_tie
        del: power_int_numeral_neg_numeral)
  have "handleMouseMove (Some ()) (pointer_event u 50 0 0 u 100) initial_tilt =
      \<lparr>tilt_x = Num 0, tilt_y = PosInf\<rparr>"
    using u by (simp add: handleMouseMove_def pointer_event_def Let_def inf_of_sign_def)
  moreover have "sampleX (pointer_event u 50 0 0 u 100) = Num u"
    "sampleY (pointer_event u 50 0 0 u 100) = Num 50"
    using u by (simp_all add: sample_pointer_event)
  ultimately show ?thesis using u(1) unfolding u_def by (simp add: magnitude_le_def)
qed

text \<open>
  Claim C5, amended: for every surface whose width and height are doubles of at least
  \<open>2 ^ - 1021\<close> (so that halving them is exact) and every sample with \<open>sampleX\<close> in
  \<open>[0, surfaceWidth]\<close> and \<open>sampleY\<close> in \<open>[0, surfaceHeight]\<close>, the computed \<open>tiltX\<close> and
  \<open>tiltY\<close> both lie in \<open>[-8, 8]\<close>.
\<close>

theorem C5_tilt_in_range_inside_surface:
  assumes "rect_width (rect e) = Num w" and "is_double w" and "2 powi (- 1021) \<le> w"
    and "rect_height (rect e) = Num h" and "is_double h" and "2 powi (- 1021) \<le> h"
    and "sampleX e = Num sx" and "0 \<le> sx" and "sx \<le> w"
    and "sampleY e = Num sy" and "0 \<le> sy" and "sy \<le> h"
  shows "in_range (- 8) 8 (tilt_x (handleMouseMove (Some k) e t)) \<and>
         in_range (- 8) 8 (tilt_y (handleMouseMove (Some k) e t))"
proof -
  have "magnitude_le 8 (tilt_x (handleMouseMove (Some k) e t))"
    unfolding move_tilt_x assms(4) assms(10)
    using assms(5,6,11,12) by (rule axis_inside)
  moreover have "magnitude_le 8 (tilt_y (handleMouseMove (Some k) e t))"
    unfolding move_tilt_y assms(1) assms(7)
    using assms(2,3,8,9) by (rule axis_inside)
  ultimately show ?thesis
    by (auto simp add: magnitude_le_def in_range_def split: jsnum.splits)
qed

theorem C5_tilt_in_range_inside_surface_witness:
  "rect_width (rect (pointer_event 250 55 50 30 200 100)) = Num 200 \<and> is_double 200 \<and>
   2 powi (- 1021) \<le> (200::real) \<and>
   rect_height (rect (pointer_event 250 55 50 30 200 100)) = Num 100 \<and> is_double 100 \<and>
   2 powi (- 1021) \<le> (100::real) \<and>
   sampleX (pointer_event 250 55 50 30 200 100) = Num 200 \<and>
   (0::real) \<le> 200 \<and> (200::real) \<le> 200 \<and>
   sampleY (pointer_event 250 55 50 30 200 100) = Num 25 \<and>
   (0::real) \<le> 25 \<and> (25::real) \<le> 100 \<and>
   in_range (- 8) 8
     (tilt_x (handleMouseMove (Some ()) (pointer_event 250 55 50 30 200 100) initial_tilt)) \<and>
   in_range (- 8) 8
     (tilt_y (handleMouseMove (Some ()) (pointer_event 250 55 50 30 200 100) initial_tilt))"
  using C5_tilt_in_range_inside_surface [where e = "pointer_event 250 55 50 30 200 100"
      and w = 200 and h = 100 and sx = 200 and sy = 25 and k = "()" and t = initial_tilt]
  by (simp add: sample_pointer_event)

text \<open>
  Claim C6: when the surface has no click handler, the pointer-move handler is a no-op:
  for every event, the tilt state after the call is the tilt state before it.
\<close>

theorem C6_move_without_onClick_is_noop:
  "handleMouseMove None e t = t"
  by (simp add: handleMouseMove_def)

text \<open>
  Claim C8: the pointer-leave handler sets the tilt state to (0, 0) whatever the state
  before, and it is idempotent: two calls in a row give (0, 0) both times.
\<close>

theorem C8_leave_resets_tilt:
  "handleMouseLeave t = \<lparr>tilt_x = Num 0, tilt_y = Num 0\<rparr> \<and>
   handleMouseLeave (handleMouseLeave t) = \<lparr>tilt_x = Num 0, tilt_y = Num 0\<rparr> \<and>
   handleMouseLeave (handleMouseLeave t) = handleMouseLeave t"
  by (simp add: handleMouseLeave_def)

text \<open>
  Claim C7, as stated: the derived scale is exactly 1.0 if and only if the tilt pair is
  exactly (0, 0), and exactly 1.02 otherwise.
  This fails on a tilt with NaN components, which the test \<^verbatim>\<open>tilt.x || tilt.y\<close> takes
  as false: the tilt (NaN, NaN), which the move handler produces for the sample (0, 0) on a
  0 by 0 surface, is not (0, 0), and its scale is 1.
\<close>

theorem C7_scale_1_on_NaN_tilt:
  "card_scale \<lparr>tilt_x = NaN, tilt_y = NaN\<rparr> = Num 1 \<and>
   \<lparr>tilt_x = NaN, tilt_y = NaN\<rparr> \<noteq> \<lparr>tilt_x = Num 0, tilt_y = Num 0\<rparr> \<and>
   handleMouseMove (Some ()) (pointer_event 0 0 0 0 0 0) initial_tilt =
     \<lparr>tilt_x = NaN, tilt_y = NaN\<rparr>"
  by (simp add: card_scale_def js_or_def truthy_def handleMouseMove_def pointer_event_def
      Let_def inf_of_sign_def)

text \<open>
  Claim C7, amended: the derived scale is exactly 1.0 if and only if each tilt component
  is 0 or NaN, and exactly 1.02 otherwise; for a tilt pair without a NaN component, the
  scale is exactly 1.0 if and only if the tilt pair is exactly (0, 0).
\<close>

theorem C7_scale_by_truthiness:
  "(card_scale t = Num 1 \<longleftrightarrow>
      (tilt_x t = Num 0 \<or> tilt_x t = NaN) \<and> (tilt_y t = Num 0 \<or> tilt_y t = NaN)) \<and>
   (card_scale t \<noteq> Num 1 \<longrightarrow> card_scale t = Num 1.02) \<and>
   (tilt_x t \<noteq> NaN \<and> tilt_y t \<noteq> NaN \<longrightarrow>
      (card_scale t = Num 1 \<longleftrightarrow> t = \<lparr>tilt_x = Num 0, tilt_y = Num 0\<rparr>))"
  by (cases t) (auto simp add: card_scale_def js_or_def truthy_def split: jsnum.splits)

theorem C7_scale_by_truthiness_witness:
  "card_scale \<lparr>tilt_x = Num 0, tilt_y = Num 0\<rparr> = Num 1 \<and>
   card_scale \<lparr>tilt_x = Num 0, tilt_y = Num (- 4)\<rparr> \<noteq> Num 1 \<and>
   card_scale \<lparr>tilt_x = Num 0, tilt_y = Num (- 4)\<rparr> = Num 1.02"
  using C7_scale_by_truthiness [of "\<lparr>tilt_x = Num 0, tilt_y = Num 0\<rparr>"]
    C7_scale_by_truthiness [of "\<lparr>tilt_x = Num 0, tilt_y = Num (- 4)\<rparr>"]
  by simp

text \<open>
  Claim C9: for a surface with no click handler, the \<^verbatim>\<open>transform\<close> and \<^verbatim>\<open>boxShadow\<close> styles
  of the rendered element are absent whatever the tilt state: no rotation, scale or shadow
  is applied to a non-interactive surface.
\<close>

theorem C9_no_effect_without_onClick:
  "transform (card_style None delay t) = None \<and> boxShadow (card_style None delay t) = None"
  by (simp add: card_style_def)

section \<open>Properties of the profile page\<close>

text \<open>
  Claim C4, as stated: the profile page displays the live lookup result when it is
  available, and the cached profile record is used only when the live lookup has not yet
  completed or has failed.
  This fails both ways. With a cached record and a query that is not loading, has no error
  and has no data, the page shows the card of the cached record: the cache is used although
  the lookup is neither in progress nor failed. With live data and an error, the page shows
  the error message, not the live record.
\<close>

theorem C4_cache_shown_when_query_settled:
  "Profile (Some ''7'') \<lparr>data = None, isLoading = False, error = (None :: unit option)\<rparr>
     \<lparr>localUser = Some \<lparr>user_id = ''1'', telegramId = Num 42, nickname = ''old'',
          username = None, quote = None, botId = None, registeredAt = ''2024-01-01''\<rparr>,
      console = []\<rparr>
   = ProfileCard \<lparr>text_nickname = ''old'', text_username = None, text_quote = None,
       text_bot_id = None, text_telegram_id = Num 42\<rparr> \<and>
   Profile (Some ''7'')
     \<lparr>data = Some \<lparr>user_id = ''1'', telegramId = Num 42, nickname = ''fox'',
          username = Some ''foxy'', quote = None, botId = None,
          registeredAt = ''2024-01-01''\<rparr>,
      isLoading = False, error = Some ()\<rparr>
     \<lparr>localUser = None, console = []\<rparr>
   = LoadError"
  by (simp add: Profile_def displayUser_def shown_def profile_card_of_def)

text \<open>
  Claim C4, amended: the profile page shows the loading skeleton while the query is
  loading, and the error message when the query is not loading and has an error, whatever
  the live data and the cache hold. When the query is neither loading nor failed, the page
  displays the live lookup result if there is one; and the cached profile record is used
  (the page differs from the one rendered without it) exactly when the query is neither
  loading nor failed, has no data, and a cached record exists.
\<close>

theorem C4_page_by_query_state:
  "(shown userId \<noteq> None \<and> isLoading q \<longrightarrow> Profile userId q st = LoadingSkeleton) \<and>
   (shown userId \<noteq> None \<and> \<not> isLoading q \<and> error q \<noteq> None \<longrightarrow>
      Profile userId q st = LoadError) \<and>
   (shown userId \<noteq> None \<and> \<not> isLoading q \<and> error q = None \<and> data q = Some u \<longrightarrow>
      Profile userId q st = ProfileCard (profile_card_of u)) \<and>
   (Profile userId q st \<noteq> Profile userId q (st\<lparr>localUser := None\<rparr>) \<longleftrightarrow>
      shown userId \<noteq> None \<and> \<not> isLoading q \<and> error q = None \<and> data q = None \<and>
      localUser st \<noteq> None)"
  by (auto simp add: Profile_def displayUser_def split: option.splits)

theorem C4_page_by_query_state_witness:
  "Profile (Some ''7'') \<lparr>data = None, isLoading = True, error = (None :: unit option)\<rparr>
     \<lparr>localUser = Some \<lparr>user_id = ''1'', telegramId = Num 42, nickname = ''old'',
          username = None, quote = None, botId = None, registeredAt = ''2024-01-01''\<rparr>,
      console = []\<rparr> = LoadingSkeleton \<and>
   Profile (Some ''7'') \<lparr>data = None, isLoading = False, error = Some ()\<rparr>
     \<lparr>localUser = Some \<lparr>user_id = ''1'', telegramId = Num 42, nickname = ''old'',
          username = None, quote = None, botId = None, registeredAt = ''2024-01-01''\<rparr>,
      console = []\<rparr> = LoadError \<and>
   Profile (Some ''7'')
     \<lparr>data = Some \<lparr>user_id = ''1'', telegramId = Num 42, nickname = ''fox'',
          username = Some ''foxy'', quote = None, botId = None,
          registeredAt = ''2024-01-01''\<rparr>,
      isLoading = False, error = (None :: unit option)\<rparr>
     \<lparr>localUser = Some \<lparr>user_id = ''1'', telegramId = Num 42, nickname = ''old'',
          username = None, quote = None, botId = None, registeredAt = ''2024-01-01''\<rparr>,
      console = []\<rparr>
   = ProfileCard (profile_card_of \<lparr>user_id = ''1'', telegramId = Num 42, nickname = ''fox'',
          username = Some ''foxy'', quote = None, botId = None,
          registeredAt = ''2024-01-01''\<rparr>) \<and>
   Profile (Some ''7'') \<lparr>data = None, isLoading = False, error = (None :: unit option)\<rparr>
     \<lparr>localUser = Some \<lparr>user_id = ''1'', telegramId = Num 42, nickname = ''old'',
          username = None, quote = None, botId = None, registeredAt = ''2024-01-01''\<rparr>,
      console = []\<rparr>
   \<noteq> Profile (Some ''7'') \<lparr>data = None, isLoading = False, error = (None :: unit option)\<rparr>
       \<lparr>localUser = None, console = []\<rparr>"
  using C4_page_by_query_state [where userId = "Some ''7''"
      and q = "\<lparr>data = None, isLoading = True, error = (None :: unit option)\<rparr>"
      and st = "\<lparr>localUser = Some \<lparr>user_id = ''1'', telegramId = Num 42, nickname = ''old'',
          username = None, quote = None, botId = None, registeredAt = ''2024-01-01''\<rparr>,
        console = []\<rparr>"]
    C4_page_by_query_state [where userId = "Some ''7''"
      and q = "\<lparr>data = None, isLoading = False, error = Some ()\<rparr>"
      and st = "\<lparr>localUser = Some \<lparr>user_id = ''1'', telegramId = Num 42, nickname = ''old'',
          username = None, quote = None, botId = None, registeredAt = ''2024-01-01''\<rparr>,
        console = []\<rparr>"]
    C4_page_by_query_state [where userId = "Some ''7''"
      and q = "\<lparr>data = Some \<lparr>user_id = ''1'', telegramId = Num 42, nickname = ''fox'',
          username = Some ''foxy'', quote = None, botId = None,
          registeredAt = ''2024-01-01''\<rparr>,
        isLoading = False, error = (None :: unit option)\<rparr>"
      and u = "\<lparr>user_id = ''1'', telegramId = Num 42, nickname = ''fox'',
          username = Some ''foxy'', quote = None, botId = None,
          registeredAt = ''2024-01-01''\<rparr>"
      and st = "\<lparr>localUser = Some \<lparr>user_id = ''1'', telegramId = Num 42, nickname = ''old'',
          username = None, quote = None, botId = None, registeredAt = ''2024-01-01''\<rparr>,
        console = []\<rparr>"]
    C4_page_by_query_state [where userId = "Some ''7''"
      and q = "\<lparr>data = None, isLoading = False, error = (None :: unit option)\<rparr>"
      and st = "\<lparr>localUser = Some \<lparr>user_id = ''1'', telegramId = Num 42, nickname = ''old'',
          username = None, quote = None, botId = None, registeredAt = ''2024-01-01''\<rparr>,
        console = []\<rparr>"]
  by (simp add: shown_def)

text \<open>
  Claim C10: if the cached profile record fails to deserialize (the saved string is not
  valid JSON), the page catches the exception, leaves the local fallback record null, and
  rendering proceeds: the page is the one the query alone determines.
\<close>

theorem C10_parse_failure_is_caught:
  assumes "localStorage ''wiralis_user'' = Some saved" and "JSON_parse saved = Inl e"
  shows "localUser (Profile_useEffect JSON_parse localStorage initial_profile) = None \<and>
         localUser (Profile_useEffect JSON_parse localStorage st) = localUser st \<and>
         (saved \<noteq> [] \<longrightarrow> Profile_useEffect JSON_parse localStorage st =
            st\<lparr>console := console st @ [''Failed to parse saved user'']\<rparr>) \<and>
         Profile userId q (Profile_useEffect JSON_parse localStorage initial_profile) =
           (if shown userId = None then UserNotFound
            else if isLoading q then LoadingSkeleton
            else if error q \<noteq> None then LoadError
            else case data q of Some u \<Rightarrow> ProfileCard (profile_card_of u) | None \<Rightarrow> NoCard)"
  using assms
  by (simp add: Profile_useEffect_def initial_profile_def Profile_def displayUser_def
      split: option.splits)

theorem C10_parse_failure_is_caught_witness:
  "localUser (Profile_useEffect (\<lambda>s. if s = ''null'' then Inr None else Inl (SyntaxError s))
       [''wiralis_user'' \<mapsto> ''{oops''] initial_profile) = None \<and>
   Profile_useEffect (\<lambda>s. if s = ''null'' then Inr None else Inl (SyntaxError s))
       [''wiralis_user'' \<mapsto> ''{oops''] initial_profile =
     \<lparr>localUser = None, console = [''Failed to parse saved user'']\<rparr> \<and>
   Profile (Some ''7'') \<lparr>data = None, isLoading = False, error = (None :: unit option)\<rparr>
     (Profile_useEffect (\<lambda>s. if s = ''null'' then Inr None else Inl (SyntaxError s))
       [''wiralis_user'' \<mapsto> ''{oops''] initial_profile) = NoCard"
  using C10_parse_failure_is_caught [of "[''wiralis_user'' \<mapsto> ''{oops'']" "''{oops''"
      "\<lambda>s. if s = ''null'' then Inr None else Inl (SyntaxError s)" "SyntaxError ''{oops''"
      initial_profile "Some ''7''"
      "\<lparr>data = None, isLoading = False, error = (None :: unit option)\<rparr>"]
  by (simp add: initial_profile_def shown_def Profile_def displayUser_def)

end
